theory Spec2Isabelle
  imports
    Main
    "HOL-Library.AList"
    "HOL-Library.Char_ord"
    "HOL-Library.List_Lexorder"
    "HOL-Library.Product_Lexorder"
    "HOL-Library.Multiset"
begin

section \<open>Strings, trimming and integer parsing\<close>

text \<open>
  Python strings are sequences of code points. A \<^typ>\<open>char\<close> stands for one code point
  below 256; \<^typ>\<open>string\<close> is ordered lexicographically by code point, the shorter of two
  strings being the smaller when it is a prefix of the other, as Python compares \<open>str\<close>.

  \<open>str.strip()\<close> removes the characters for which \<open>str.isspace\<close> holds from both ends;
  below 256 these are the code points 9 to 13, 28 to 32, 133 and 160.
\<close>

definition is_space :: "char \<Rightarrow> bool" where
  "is_space c = ((of_char c :: nat) \<in> {9, 10, 11, 12, 13, 28, 29, 30, 31, 32, 133, 160})"

definition trim :: "(char \<Rightarrow> bool) \<Rightarrow> string \<Rightarrow> string" where
  "trim P s = rev (dropWhile P (rev (dropWhile P s)))"

definition strip :: "string \<Rightarrow> string" where
  "strip s = trim is_space s"

text \<open>
  \<open>int(s)\<close> in base 10: surrounding whitespace is skipped (the code points 9 to 13, 32, 133
  and 160; not 28 to 31, which \<open>int\<close> rejects although \<open>strip\<close> removes them), then an
  optional sign, then decimal digits in which single underscores may stand between two
  digits. Anything else raises \<open>ValueError\<close>, here \<open>None\<close>. The interpreter's configurable
  limit on the number of digits is taken as switched off.
\<close>

definition int_space :: "char \<Rightarrow> bool" where
  "int_space c = ((of_char c :: nat) \<in> {9, 10, 11, 12, 13, 32, 133, 160})"

definition is_digit :: "char \<Rightarrow> bool" where
  "is_digit c = (48 \<le> (of_char c :: nat) \<and> (of_char c :: nat) \<le> 57)"

definition digit_value :: "char \<Rightarrow> int" where
  "digit_value c = int (of_char c) - 48"

fun digits_value :: "int \<Rightarrow> string \<Rightarrow> int option" where
  "digits_value acc [] = Some acc"
| "digits_value acc [c] = (if is_digit c then Some (acc * 10 + digit_value c) else None)"
| "digits_value acc (c # d # ds) =
     (if is_digit c then digits_value (acc * 10 + digit_value c) (d # ds)
      else if c = CHR ''_'' \<and> is_digit d then digits_value (acc * 10 + digit_value d) ds
      else None)"

definition parse_digits :: "string \<Rightarrow> int option" where
  "parse_digits s =
     (case s of
        [] \<Rightarrow> None
      | c # cs \<Rightarrow> if is_digit c then digits_value (digit_value c) cs else None)"

definition py_int :: "string \<Rightarrow> int option" where
  "py_int s =
     (case trim int_space s of
        [] \<Rightarrow> None
      | c # cs \<Rightarrow>
          if c = CHR ''-'' then map_option uminus (parse_digits cs)
          else if c = CHR ''+'' then parse_digits cs
          else parse_digits (c # cs))"

section \<open>Data model\<close>

text \<open>
  An input row as \<open>csv.DictReader\<close> hands it over once \<open>validate_columns\<close> has passed:
  one string for each of the nine required columns, untrimmed. A record with fewer
  fields than the header, for which the reader would supply \<open>None\<close>, is not among the
  inputs considered here.
\<close>

record row =
  work_id :: string
  node_id :: string
  parent_id :: string
  level_id :: string
  ordinal :: string
  lang :: string
  title :: string
  site :: string
  url :: string

text \<open>
  A node is the dictionary built at lines 66 to 71 with the keys \<open>id\<close>, \<open>level\<close>, \<open>ordinal\<close>
  and \<open>title\<close>; the keys \<open>parent\<close> and \<open>links\<close> exist only once they have been set, hence
  the options. The dictionaries \<open>title\<close> and \<open>links\<close> keep insertion order and are
  association lists. The fields carry the prefix \<open>n_\<close> because \<open>id\<close> is the identity
  function of HOL and \<open>ordinal\<close> and \<open>title\<close> are columns of a row already.
\<close>

record node =
  n_id :: string
  n_level :: string
  n_ordinal :: int
  n_title :: "(string \<times> string) list"
  n_parent :: "string option"
  n_links :: "(string \<times> string) list option"

record level =
  l_id :: string
  l_ordinal :: int

record "structure" =
  levels :: "level list"
  nodes :: "node list"

text \<open>
  \<open>fail\<close> prints \<open>ERROR: msg\<close> on the standard error stream and leaves with status 1. The
  other ways out are exceptions that nothing catches, for which the interpreter prints a
  traceback and leaves with status 1 as well: the \<open>ValueError\<close> of \<open>int\<close>, whose message
  quotes the literal, and whatever \<open>open\<close> raises at line 143, an \<open>OSError\<close> for the path
  as a rule.
\<close>

datatype failure = Exit string nat | ValueError string | OSError string

definition fail :: "string \<Rightarrow> failure" where
  "fail msg = Exit (''ERROR: '' @ msg) 1"

fun exit_status :: "failure \<Rightarrow> nat" where
  "exit_status (Exit text n) = n"
| "exit_status (ValueError lit) = 1"
| "exit_status (OSError path) = 1"

section \<open>Column validation\<close>

text \<open>
  Lines 10 to 20 and 31 to 34. \<open>REQUIRED_COLUMNS\<close> is a set in the source; its elements are
  pairwise different, so the sorted list of the missing ones is the sorted filter of the
  list below. \<open>fieldnames\<close> is the header of the file.
\<close>

definition REQUIRED_COLUMNS :: "string list" where
  "REQUIRED_COLUMNS =
     [''work_id'', ''node_id'', ''parent_id'', ''level_id'', ''ordinal'',
      ''lang'', ''title'', ''site'', ''url'']"

fun join :: "string \<Rightarrow> string list \<Rightarrow> string" where
  "join sep [] = []"
| "join sep [x] = x"
| "join sep (x # y # ys) = x @ sep @ join sep (y # ys)"

definition validate_columns :: "string list \<Rightarrow> failure option" where
  "validate_columns fieldnames =
     (let missing = filter (\<lambda>c. c \<notin> set fieldnames) REQUIRED_COLUMNS
      in if missing \<noteq> []
         then Some (fail (''CSV is missing columns: '' @ join '', '' (sort missing)))
         else None)"

section \<open>Row Grouper\<close>

text \<open>
  Lines 49 to 51. \<open>works\<close> is a \<open>defaultdict(list)\<close>: a dictionary in insertion order, here
  an association list in which \<^const>\<open>AList.update\<close> replaces the value of a key that is
  present where it stands and appends a new key at the end. The key is the \<open>work_id\<close>
  field as read, without trimming.
\<close>

definition works_append :: "row \<Rightarrow> (string \<times> row list) list \<Rightarrow> (string \<times> row list) list" where
  "works_append r works =
     AList.update (work_id r)
       ((case map_of works (work_id r) of None \<Rightarrow> [] | Some rs \<Rightarrow> rs) @ [r]) works"

definition group_rows :: "row list \<Rightarrow> (string \<times> row list) list" where
  "group_rows rows = fold works_append rows []"

section \<open>Tree Builder\<close>

subsection \<open>Node accumulation (lines 58 to 91)\<close>

definition setdefault :: "'k \<Rightarrow> 'v \<Rightarrow> ('k \<times> 'v) list \<Rightarrow> ('k \<times> 'v) list" where
  "setdefault k v d = (case map_of d k of None \<Rightarrow> d @ [(k, v)] | Some old \<Rightarrow> d)"

text \<open>Lines 75 to 91: what one row does to the node it names.\<close>

definition set_parent :: "row \<Rightarrow> node \<Rightarrow> node" where
  "set_parent r nd =
     (let p = strip (parent_id r)
      in if p \<noteq> [] then nd\<lparr>n_parent := Some p\<rparr> else nd)"

definition set_title :: "row \<Rightarrow> node \<Rightarrow> node" where
  "set_title r nd =
     (let lg = strip (lang r); tl = strip (title r)
      in if lg \<noteq> [] \<and> tl \<noteq> [] then nd\<lparr>n_title := AList.update lg tl (n_title nd)\<rparr> else nd)"

definition set_link :: "row \<Rightarrow> node \<Rightarrow> node" where
  "set_link r nd =
     (let st = strip (site r); u = strip (url r)
      in if st \<noteq> [] \<and> u \<noteq> []
         then nd\<lparr>n_links :=
                Some (AList.update st u (case n_links nd of None \<Rightarrow> [] | Some ls \<Rightarrow> ls))\<rparr>
         else nd)"

definition update_node :: "row \<Rightarrow> node \<Rightarrow> node" where
  "update_node r nd = set_link r (set_title r (set_parent r nd))"

text \<open>
  One pass of the loop body. The dictionary literal given to \<open>setdefault\<close> is evaluated
  before \<open>setdefault\<close> looks the key up, so \<open>int(row["ordinal"])\<close> runs on every row. The
  set \<open>seen_parents\<close> is written and never read; it is left out.
\<close>

definition new_node :: "string \<Rightarrow> string \<Rightarrow> int \<Rightarrow> node" where
  "new_node nid lvl n =
     \<lparr>n_id = nid, n_level = lvl, n_ordinal = n, n_title = [], n_parent = None, n_links = None\<rparr>"

definition accumulate_row ::
  "string \<Rightarrow> row \<Rightarrow> (string \<times> node) list \<Rightarrow> failure + (string \<times> node) list" where
  "accumulate_row wid r nds =
     (let nid = strip (node_id r)
      in if nid = [] then Inl (fail (''Empty node_id in work '' @ wid))
         else (case py_int (ordinal r) of
                 None \<Rightarrow> Inl (ValueError (ordinal r))
               | Some n \<Rightarrow>
                   Inr (AList.map_entry nid (update_node r)
                         (setdefault nid (new_node nid (strip (level_id r)) n) nds))))"

fun accumulate ::
  "string \<Rightarrow> row list \<Rightarrow> (string \<times> node) list \<Rightarrow> failure + (string \<times> node) list" where
  "accumulate wid [] nds = Inr nds"
| "accumulate wid (r # rs) nds =
     (case accumulate_row wid r nds of
        Inl e \<Rightarrow> Inl e
      | Inr nds' \<Rightarrow> accumulate wid rs nds')"

subsection \<open>Referential validation (lines 97 to 99)\<close>

text \<open>The text of line 99; \<open>CHR 0x27\<close> is the single quote.\<close>

definition parent_not_found :: "string \<Rightarrow> string \<Rightarrow> string" where
  "parent_not_found p n =
     ''Parent '' @ [CHR 0x27] @ p @ [CHR 0x27] @ '' not found (node '' @ n @ '')''"

fun validate_parents :: "(string \<times> node) list \<Rightarrow> node list \<Rightarrow> failure option" where
  "validate_parents nds [] = None"
| "validate_parents nds (nd # rest) =
     (case n_parent nd of
        None \<Rightarrow> validate_parents nds rest
      | Some p \<Rightarrow>
          if map_of nds p = None
          then Some (fail (parent_not_found p (n_id nd)))
          else validate_parents nds rest)"

subsection \<open>Level inference (lines 105 to 116)\<close>

definition level_ordinals_step :: "node \<Rightarrow> (string \<times> int) list \<Rightarrow> (string \<times> int) list" where
  "level_ordinals_step nd lo =
     AList.update (n_level nd)
       (min (case map_of lo (n_level nd) of None \<Rightarrow> n_ordinal nd | Some v \<Rightarrow> v) (n_ordinal nd))
       lo"

definition level_ordinals :: "node list \<Rightarrow> (string \<times> int) list" where
  "level_ordinals nds = fold level_ordinals_step nds []"

text \<open>
  \<open>sorted(..., key=...)\<close> is a stable sort by the key, and so is \<^const>\<open>sort_key\<close>; a
  stable sort has one result only.
\<close>

definition infer_levels :: "node list \<Rightarrow> level list" where
  "infer_levels nds =
     map (\<lambda>(lvl, n). \<lparr>l_id = lvl, l_ordinal = n\<rparr>) (sort_key snd (level_ordinals nds))"

subsection \<open>Node order (lines 122 to 129)\<close>

definition sort_key_node :: "node \<Rightarrow> string \<times> int \<times> string" where
  "sort_key_node n = ((case n_parent n of None \<Rightarrow> [] | Some p \<Rightarrow> p), n_ordinal n, n_id n)"

definition sorted_nodes :: "(string \<times> node) list \<Rightarrow> node list" where
  "sorted_nodes nds = sort_key sort_key_node (map snd nds)"

subsection \<open>The document of one work (lines 58 to 140)\<close>

definition build_document :: "string \<Rightarrow> row list \<Rightarrow> failure + structure" where
  "build_document wid rows =
     (case accumulate wid rows [] of
        Inl e \<Rightarrow> Inl e
      | Inr nds \<Rightarrow>
          (case validate_parents nds (map snd nds) of
             Some e \<Rightarrow> Inl e
           | None \<Rightarrow>
               Inr \<lparr>levels = infer_levels (map snd nds), nodes = sorted_nodes nds\<rparr>))"

section \<open>Output and the run\<close>

text \<open>
  What a run does to its surroundings: the writes it performs, each a path and the
  document dumped there, in the order they happen, and the lines printed on standard
  output. \<open>open(..., "w")\<close> truncates, so a later write to a path replaces what an earlier
  write left there; which of two path strings name the same file is for the file system
  to say, and \<open>files\<close> records the writes, not the directory afterwards.
\<close>

record sink =
  files :: "(string \<times> structure) list"
  stdout :: "string list"

text \<open>
  Line 142 joins \<open>OUT_DIR\<close> and the file name with the \<open>/\<close> of \<open>pathlib\<close>, on a POSIX
  system. The name is cut at the slashes, empty components and components \<open>.\<close> are dropped
  (\<open>..\<close> is kept), and a name that begins with a slash replaces \<open>OUT_DIR\<close> altogether: the
  result is then absolute, its root \<open>//\<close> when the name begins with exactly two slashes.
  The printed form of the path, which line 151 shows, is what \<open>out_path\<close> returns.
\<close>

fun split_on :: "char \<Rightarrow> string \<Rightarrow> string list" where
  "split_on c [] = [[]]"
| "split_on c (x # xs) =
     (if x = c then [] # split_on c xs
      else (case split_on c xs of
              [] \<Rightarrow> [[x]]
            | y # ys \<Rightarrow> (x # y) # ys))"

definition path_parts :: "string \<Rightarrow> string list" where
  "path_parts s = filter (\<lambda>x. x \<noteq> [] \<and> x \<noteq> ''.'') (split_on (CHR ''/'') s)"

definition out_path :: "string \<Rightarrow> string" where
  "out_path wid =
     (let name = wid @ ''.structure.yaml'';
          slashes = length (takeWhile (\<lambda>c. c = CHR ''/'') name)
      in if slashes = 0 then join ''/'' (''structures'' # path_parts name)
         else (if slashes = 2 then ''//'' else ''/'') @ join ''/'' (path_parts name))"

text \<open>
  Lines 142 to 151 write the document of a work as soon as it is built. Whether a path
  can be opened for writing depends on the directories that exist and on permissions,
  which the program does not control beyond creating \<open>OUT_DIR\<close>: the file system is a
  parameter \<open>fs\<close> that gives, for a path, the exception \<open>open\<close> raises at line 143, or
  \<open>None\<close> when the file opens. The dump into an open file is taken to complete.
\<close>

type_synonym file_system = "string \<Rightarrow> failure option"

definition build_work_structure ::
  "file_system \<Rightarrow> string \<Rightarrow> row list \<Rightarrow> sink \<Rightarrow> failure + sink" where
  "build_work_structure fs wid rows s =
     (case build_document wid rows of
        Inl e \<Rightarrow> Inl e
      | Inr doc \<Rightarrow>
          (case fs (out_path wid) of
             Some e \<Rightarrow> Inl e
           | None \<Rightarrow>
               Inr (s\<lparr>files := files s @ [(out_path wid, doc)],
                      stdout := stdout s @ [''Wrote '' @ out_path wid]\<rparr>)))"

text \<open>
  Lines 46 to 54: \<open>main\<close> from the point where the header and the rows have been read.
  A failure ends the process where it happens and undoes nothing. The result is the sink
  at the end together with the failure, if any.
\<close>

fun build_all ::
  "file_system \<Rightarrow> (string \<times> row list) list \<Rightarrow> sink \<Rightarrow> sink \<times> failure option" where
  "build_all fs [] s = (s, None)"
| "build_all fs ((wid, rows) # ws) s =
     (case build_work_structure fs wid rows s of
        Inl e \<Rightarrow> (s, Some e)
      | Inr s' \<Rightarrow> build_all fs ws s')"

definition main :: "file_system \<Rightarrow> string list \<Rightarrow> row list \<Rightarrow> sink \<times> failure option" where
  "main fs fieldnames rows =
     (case validate_columns fieldnames of
        Some e \<Rightarrow> (\<lparr>files = [], stdout = []\<rparr>, Some e)
      | None \<Rightarrow> build_all fs (group_rows rows) \<lparr>files = [], stdout = []\<rparr>)"

section \<open>Order of first appearance\<close>

text \<open>
  The elements of a list in the order in which each appears for the first time: the
  head, then the first appearances in the tail of everything else. A dictionary filled
  from a sequence of keys holds its keys in this order.
\<close>

fun first_seen :: "'a list \<Rightarrow> 'a list" where
  "first_seen [] = []"
| "first_seen (x # xs) = x # removeAll x (first_seen xs)"

section \<open>Example inputs\<close>

text \<open>
  Concrete rows and the values the functions above give on them, for use in the
  instances that follow the general theorems. \<open>book_rows\<close> is a work with a repeated
  node, padded fields, equal ordinals among siblings and an overwritten link;
  \<open>dangling_rows\<close> names parents that no row defines; \<open>cycle_rows\<close> has a node that is its
  own parent and two nodes that are each other's parent; \<open>mixed_rows\<close> has a valid work
  followed by a work with an empty \<open>node_id\<close>; \<open>padded_rows\<close> has two rows whose
  \<open>work_id\<close> differ by a leading blank.
\<close>

definition mk_row ::
  "string \<Rightarrow> string \<Rightarrow> string \<Rightarrow> string \<Rightarrow> string \<Rightarrow> string \<Rightarrow> string \<Rightarrow> string \<Rightarrow> string \<Rightarrow> row" where
  "mk_row w n p l ord lg t st u =
     \<lparr>work_id = w, node_id = n, parent_id = p, level_id = l, ordinal = ord,
      lang = lg, title = t, site = st, url = u\<rparr>"

definition book_first :: row where
  "book_first = mk_row ''W1'' '' N1 '' '''' '' chapter '' ''2'' ''en'' ''Intro'' '''' ''''"

definition book_later :: row where
  "book_later = mk_row ''W1'' ''N1'' ''N0'' ''book'' ''9'' ''fr'' ''Intro-fr'' '''' ''''"

definition book_rows :: "row list" where
  "book_rows =
     [book_first,
      mk_row ''W1'' ''N2'' ''N1'' ''section'' ''3'' ''en'' ''Part'' ''wiki'' ''http://x'',
      book_later,
      mk_row ''W1'' ''N3'' ''N1'' ''section'' ''3'' '''' '''' '''' '''',
      mk_row ''W1'' ''N0'' '''' ''chapter'' ''1'' '''' '''' '''' '''',
      mk_row ''W1'' ''N2'' '''' ''section'' ''4'' '''' '''' ''wiki'' ''http://y'']"

definition node_N0 :: node where
  "node_N0 = \<lparr>n_id = ''N0'', n_level = ''chapter'', n_ordinal = 1,
               n_title = [], n_parent = None, n_links = None\<rparr>"

definition node_N1 :: node where
  "node_N1 = \<lparr>n_id = ''N1'', n_level = ''chapter'', n_ordinal = 2,
               n_title = [(''en'', ''Intro''), (''fr'', ''Intro-fr'')],
               n_parent = Some ''N0'', n_links = None\<rparr>"

definition node_N2 :: node where
  "node_N2 = \<lparr>n_id = ''N2'', n_level = ''section'', n_ordinal = 3,
               n_title = [(''en'', ''Part'')],
               n_parent = Some ''N1'', n_links = Some [(''wiki'', ''http://y'')]\<rparr>"

definition node_N3 :: node where
  "node_N3 = \<lparr>n_id = ''N3'', n_level = ''section'', n_ordinal = 3,
               n_title = [], n_parent = Some ''N1'', n_links = None\<rparr>"

definition book_nodes :: "(string \<times> node) list" where
  "book_nodes = [(''N1'', node_N1), (''N2'', node_N2), (''N3'', node_N3), (''N0'', node_N0)]"

definition book_doc :: "structure" where
  "book_doc =
     \<lparr>levels = [\<lparr>l_id = ''chapter'', l_ordinal = 1\<rparr>, \<lparr>l_id = ''section'', l_ordinal = 3\<rparr>],
      nodes = [node_N0, node_N1, node_N2, node_N3]\<rparr>"

definition dangling_rows :: "row list" where
  "dangling_rows =
     [mk_row ''W1'' ''N1'' ''N9'' ''chapter'' ''1'' ''en'' ''Intro'' '''' '''',
      mk_row ''W1'' ''N2'' ''N8'' ''chapter'' ''2'' '''' '''' '''' '''']"

definition dangling_nodes :: "(string \<times> node) list" where
  "dangling_nodes =
     [(''N1'', \<lparr>n_id = ''N1'', n_level = ''chapter'', n_ordinal = 1,
                n_title = [(''en'', ''Intro'')], n_parent = Some ''N9'', n_links = None\<rparr>),
      (''N2'', \<lparr>n_id = ''N2'', n_level = ''chapter'', n_ordinal = 2,
                n_title = [], n_parent = Some ''N8'', n_links = None\<rparr>)]"

definition cycle_rows :: "row list" where
  "cycle_rows =
     [mk_row ''W1'' ''S'' ''S'' ''chapter'' ''1'' '''' '''' '''' '''',
      mk_row ''W1'' ''A'' ''B'' ''chapter'' ''2'' '''' '''' '''' '''',
      mk_row ''W1'' ''B'' ''A'' ''chapter'' ''3'' '''' '''' '''' '''']"

definition cycle_nodes :: "(string \<times> node) list" where
  "cycle_nodes =
     [(''S'', \<lparr>n_id = ''S'', n_level = ''chapter'', n_ordinal = 1,
               n_title = [], n_parent = Some ''S'', n_links = None\<rparr>),
      (''A'', \<lparr>n_id = ''A'', n_level = ''chapter'', n_ordinal = 2,
               n_title = [], n_parent = Some ''B'', n_links = None\<rparr>),
      (''B'', \<lparr>n_id = ''B'', n_level = ''chapter'', n_ordinal = 3,
               n_title = [], n_parent = Some ''A'', n_links = None\<rparr>)]"

definition repeat_good :: row where
  "repeat_good = mk_row ''W1'' ''N1'' '''' ''chapter'' ''1'' ''en'' ''Intro'' '''' ''''"

definition repeat_bad :: row where
  "repeat_bad = mk_row ''W1'' ''N1'' '''' ''chapter'' ''one'' ''fr'' ''Intro-fr'' '''' ''''"

definition mixed_rows :: "row list" where
  "mixed_rows =
     [mk_row ''W1'' ''N1'' '''' ''chapter'' ''1'' ''en'' ''Intro'' '''' '''',
      mk_row ''W2'' ''  '' '''' ''chapter'' ''1'' '''' '''' '''' '''',
      mk_row ''W3'' ''N1'' '''' ''chapter'' ''1'' '''' '''' '''' '''']"

definition mixed_doc :: "structure" where
  "mixed_doc =
     \<lparr>levels = [\<lparr>l_id = ''chapter'', l_ordinal = 1\<rparr>],
      nodes = [\<lparr>n_id = ''N1'', n_level = ''chapter'', n_ordinal = 1,
                n_title = [(''en'', ''Intro'')], n_parent = None, n_links = None\<rparr>]\<rparr>"

definition mixed_sink :: sink where
  "mixed_sink =
     \<lparr>files = [(''structures/W1.structure.yaml'', mixed_doc)],
      stdout = [''Wrote structures/W1.structure.yaml'']\<rparr>"

definition padded_rows :: "row list" where
  "padded_rows =
     [mk_row ''W1'' ''N1'' '''' ''chapter'' ''1'' '''' '''' '''' '''',
      mk_row '' W1'' ''N2'' ''N1'' ''section'' ''1'' '''' '''' '''' '''']"

text \<open>
  Two file systems: one in which every path opens, and one in which only a file directly
  in the directory \<open>structures\<close> opens. \<open>slash_rows\<close> has a \<open>work_id\<close> with a slash in it,
  whose file the second does not open.
\<close>

definition every_path_opens :: file_system where
  "every_path_opens path = None"

definition flat_directory :: file_system where
  "flat_directory path =
     (if take 11 path = ''structures/'' \<and> CHR ''/'' \<notin> set (drop 11 path) then None
      else Some (OSError path))"

definition slash_rows :: "row list" where
  "slash_rows =
     [mk_row ''W1'' ''N1'' '''' ''chapter'' ''1'' ''en'' ''Intro'' '''' '''',
      mk_row ''a/b'' ''N1'' '''' ''chapter'' ''1'' ''en'' ''Intro'' '''' '''',
      mk_row ''W3'' ''N1'' '''' ''chapter'' ''1'' ''en'' ''Intro'' '''' '''']"

section \<open>The example inputs evaluated\<close>

lemma book_accumulate: "accumulate ''W1'' book_rows [] = Inr book_nodes"
  by code_simp

lemma book_document: "build_document ''W1'' book_rows = Inr book_doc"
  by code_simp

lemma dangling_accumulate: "accumulate ''W1'' dangling_rows [] = Inr dangling_nodes"
  by code_simp

lemma cycle_accumulate: "accumulate ''W1'' cycle_rows [] = Inr cycle_nodes"
  by code_simp

lemma mixed_main:
  "main every_path_opens REQUIRED_COLUMNS mixed_rows
     = (mixed_sink, Some (Exit ''ERROR: Empty node_id in work W2'' 1))"
  by code_simp

lemma slash_main:
  "main flat_directory REQUIRED_COLUMNS slash_rows
     = (mixed_sink, Some (OSError ''structures/a/b.structure.yaml''))"
  by code_simp

lemma out_path_examples:
  "out_path ''W1'' = ''structures/W1.structure.yaml''"
  "out_path ''./W1'' = ''structures/W1.structure.yaml''"
  "out_path ''a//b'' = ''structures/a/b.structure.yaml''"
  "out_path ''/tmp/W1'' = ''/tmp/W1.structure.yaml''"
  by code_simp+

section \<open>Properties of the Row Grouper\<close>

lemma works_append_map_of:
  "map_of (works_append r works) w =
     (if work_id r = w
      then Some ((case map_of works w of None \<Rightarrow> [] | Some rs \<Rightarrow> rs) @ [r])
      else map_of works w)"
  by (simp add: works_append_def update_conv')

lemma fold_works_append_map_of:
  "map_of (fold works_append rows acc) w =
     (if map_of acc w = None \<and> filter (\<lambda>r. work_id r = w) rows = [] then None
      else Some ((case map_of acc w of None \<Rightarrow> [] | Some rs \<Rightarrow> rs)
                 @ filter (\<lambda>r. work_id r = w) rows))"
proof (induction rows arbitrary: acc)
  case Nil
  then show ?case by (simp split: option.splits)
next
  case (Cons r rows)
  show ?case
    by (simp add: Cons.IH works_append_map_of split: option.splits)
qed

lemma fold_works_append_distinct:
  "distinct (map fst acc) \<Longrightarrow> distinct (map fst (fold works_append rows acc))"
  by (induction rows arbitrary: acc) (simp_all add: works_append_def distinct_update)

lemma update_append_mset:
  "mset (concat (map snd
           (AList.update k ((case map_of al k of None \<Rightarrow> [] | Some rs \<Rightarrow> rs) @ [r]) al)))
     = mset (concat (map snd al)) + {#r#}"
  by (induction al) auto

lemma fold_works_append_mset:
  "mset (concat (map snd (fold works_append rows acc)))
     = mset (concat (map snd acc)) + mset rows"
proof (induction rows arbitrary: acc)
  case Nil
  then show ?case by simp
next
  case (Cons r rows)
  have "mset (concat (map snd (works_append r acc))) = mset (concat (map snd acc)) + {#r#}"
    unfolding works_append_def by (rule update_append_mset)
  then show ?case by (simp add: Cons.IH)
qed

lemma group_rows_distinct: "distinct (map fst (group_rows rows))"
  unfolding group_rows_def by (rule fold_works_append_distinct) simp

lemma group_rows_map_of:
  "map_of (group_rows rows) w =
     (if filter (\<lambda>r. work_id r = w) rows = [] then None
      else Some (filter (\<lambda>r. work_id r = w) rows))"
  unfolding group_rows_def by (simp add: fold_works_append_map_of)

text \<open>
  Claim C5. The Row Grouper maps the empty sequence to the empty mapping. For any rows,
  its keys are pairwise different, the group of a \<open>work_id\<close> is exactly the subsequence of
  the rows bearing that \<open>work_id\<close>, in their original order (and a \<open>work_id\<close> that no row
  bears has no group), and the groups taken together hold every row exactly as often as
  the input does: no row is dropped or duplicated.
\<close>

theorem group_rows_partition:
  "group_rows [] = []
   \<and> distinct (map fst (group_rows rows))
   \<and> map_of (group_rows rows) w =
       (if filter (\<lambda>r. work_id r = w) rows = [] then None
        else Some (filter (\<lambda>r. work_id r = w) rows))
   \<and> mset (concat (map snd (group_rows rows))) = mset rows"
  using fold_works_append_mset [of rows "[]"]
  by (simp add: group_rows_distinct group_rows_map_of) (simp add: group_rows_def)

subsection \<open>The order of the groups\<close>

lemma works_append_keys:
  "map fst (works_append r works) =
     (if work_id r \<in> set (map fst works) then map fst works else map fst works @ [work_id r])"
  by (simp add: works_append_def update_keys)

lemma filter_removeAll_absorb:
  "\<not> P k \<Longrightarrow> filter P (removeAll k xs) = filter P xs"
  by (induction xs) auto

lemma filter_removeAll_swap:
  "filter P (removeAll k xs) = filter (\<lambda>x. x \<noteq> k \<and> P x) xs"
  by (induction xs) auto

lemma fold_works_append_keys:
  "map fst (fold works_append rows acc) =
     map fst acc @ filter (\<lambda>k. k \<notin> set (map fst acc)) (first_seen (map work_id rows))"
proof (induction rows arbitrary: acc)
  case Nil
  then show ?case by simp
next
  case (Cons r rows)
  show ?case
  proof (cases "work_id r \<in> set (map fst acc)")
    case True
    then show ?thesis
      by (simp add: Cons.IH works_append_keys filter_removeAll_absorb)
  next
    case False
    then show ?thesis
      by (simp add: Cons.IH works_append_keys filter_removeAll_swap)
  qed
qed

lemma group_rows_keys: "map fst (group_rows rows) = first_seen (map work_id rows)"
  unfolding group_rows_def by (simp add: fold_works_append_keys)

lemma group_rows_entry:
  assumes "(w, rs) \<in> set (group_rows rows)"
  shows "rs = filter (\<lambda>r. work_id r = w) rows"
proof -
  from assms group_rows_distinct [of rows] have "map_of (group_rows rows) w = Some rs"
    by simp
  then show ?thesis
    by (simp add: group_rows_map_of split: if_splits)
qed

lemma group_rows_first_seen:
  "group_rows rows =
     map (\<lambda>w. (w, filter (\<lambda>r. work_id r = w) rows)) (first_seen (map work_id rows))"
proof -
  have "map (\<lambda>g. (fst g, filter (\<lambda>r. work_id r = fst g) rows)) (group_rows rows)
          = group_rows rows"
  proof (rule map_idI)
    fix g
    assume "g \<in> set (group_rows rows)"
    then have "(fst g, snd g) \<in> set (group_rows rows)" by simp
    then have "snd g = filter (\<lambda>r. work_id r = fst g) rows"
      by (rule group_rows_entry)
    then show "(fst g, filter (\<lambda>r. work_id r = fst g) rows) = g"
      by (simp add: prod_eq_iff)
  qed
  then have "group_rows rows
          = map (\<lambda>g. (fst g, filter (\<lambda>r. work_id r = fst g) rows)) (group_rows rows)"
    by simp
  also have "\<dots> = map (\<lambda>w. (w, filter (\<lambda>r. work_id r = w) rows)) (map fst (group_rows rows))"
    by simp
  finally show ?thesis
    by (simp only: group_rows_keys)
qed

section \<open>Properties of node accumulation\<close>

lemma setdefault_map_of:
  "map_of (setdefault k v d) = (map_of d)(k \<mapsto> (case map_of d k of None \<Rightarrow> v | Some old \<Rightarrow> old))"
  by (auto simp: setdefault_def fun_eq_iff map_add_def split: option.splits)

lemma setdefault_keys:
  "map fst (setdefault k v d) = (if k \<in> set (map fst d) then map fst d else map fst d @ [k])"
  by (force simp: setdefault_def map_of_eq_None_iff split: option.splits dest: map_of_SomeD)

lemma map_entry_keys: "map fst (AList.map_entry k f d) = map fst d"
  by (induction d) auto

lemma accumulate_row_Inr:
  assumes "accumulate_row wid r nds = Inr nds'"
  shows "strip (node_id r) \<noteq> []
         \<and> (\<exists>n. py_int (ordinal r) = Some n
              \<and> map_of nds' = (map_of nds)(strip (node_id r) \<mapsto>
                   update_node r (case map_of nds (strip (node_id r)) of
                                    None \<Rightarrow> new_node (strip (node_id r)) (strip (level_id r)) n
                                  | Some nd \<Rightarrow> nd)))
         \<and> map fst nds' = (if strip (node_id r) \<in> set (map fst nds) then map fst nds
                            else map fst nds @ [strip (node_id r)])"
  using assms
  by (force simp: accumulate_row_def Let_def map_of_map_entry setdefault_map_of
        setdefault_keys map_entry_keys fun_eq_iff
      split: if_splits option.splits)


lemma accumulate_map_of:
  assumes "accumulate wid rows nds0 = Inr nds"
  shows "map_of nds k =
     (case map_of nds0 k of
        Some nd0 \<Rightarrow> Some (fold update_node (filter (\<lambda>r. strip (node_id r) = k) rows) nd0)
      | None \<Rightarrow>
          (case filter (\<lambda>r. strip (node_id r) = k) rows of
             [] \<Rightarrow> None
           | r # rs \<Rightarrow>
               (case py_int (ordinal r) of
                  None \<Rightarrow> None
                | Some n \<Rightarrow> Some (fold update_node (r # rs) (new_node k (strip (level_id r)) n)))))"
  using assms
proof (induction rows arbitrary: nds0)
  case Nil
  then show ?case by (simp split: option.splits)
next
  case (Cons r rows)
  from Cons.prems obtain nds1 where
    row: "accumulate_row wid r nds0 = Inr nds1" and rest: "accumulate wid rows nds1 = Inr nds"
    by (auto split: sum.splits)
  from accumulate_row_Inr [OF row] obtain n where
    n: "py_int (ordinal r) = Some n" and
    m: "map_of nds1 = (map_of nds0)(strip (node_id r) \<mapsto>
          update_node r (case map_of nds0 (strip (node_id r)) of
                           None \<Rightarrow> new_node (strip (node_id r)) (strip (level_id r)) n
                         | Some nd \<Rightarrow> nd))"
    by blast
  show ?case
    unfolding Cons.IH [OF rest] m
    by (simp add: n split: option.splits)
qed

lemma accumulate_rows_ok:
  "accumulate wid rows nds0 = Inr nds \<Longrightarrow> r \<in> set rows \<Longrightarrow>
     strip (node_id r) \<noteq> [] \<and> py_int (ordinal r) \<noteq> None"
proof (induction rows arbitrary: nds0)
  case Nil
  then show ?case by simp
next
  case (Cons x rows)
  from Cons.prems(1) obtain nds1 where
    row: "accumulate_row wid x nds0 = Inr nds1" and rest: "accumulate wid rows nds1 = Inr nds"
    by (auto split: sum.splits)
  from accumulate_row_Inr [OF row] Cons.IH [OF rest] Cons.prems(2)
  show ?case by auto
qed

lemma accumulate_distinct:
  "accumulate wid rows nds0 = Inr nds \<Longrightarrow> distinct (map fst nds0) \<Longrightarrow> distinct (map fst nds)"
proof (induction rows arbitrary: nds0)
  case Nil
  then show ?case by simp
next
  case (Cons x rows)
  from Cons.prems(1) obtain nds1 where
    row: "accumulate_row wid x nds0 = Inr nds1" and rest: "accumulate wid rows nds1 = Inr nds"
    by (auto split: sum.splits)
  from accumulate_row_Inr [OF row] Cons.prems(2) have "distinct (map fst nds1)"
    by (auto split: if_splits)
  then show ?case by (rule Cons.IH [OF rest])
qed

lemma update_node_fixed:
  "n_id (update_node r nd) = n_id nd"
  "n_level (update_node r nd) = n_level nd"
  "n_ordinal (update_node r nd) = n_ordinal nd"
  by (simp_all add: update_node_def set_link_def set_title_def set_parent_def Let_def)

lemma update_node_parent:
  "n_parent (update_node r nd) =
     (if strip (parent_id r) \<noteq> [] then Some (strip (parent_id r)) else n_parent nd)"
  by (simp add: update_node_def set_link_def set_title_def set_parent_def Let_def)

lemma update_node_title:
  "n_title (update_node r nd) =
     (if strip (lang r) \<noteq> [] \<and> strip (title r) \<noteq> []
      then AList.update (strip (lang r)) (strip (title r)) (n_title nd) else n_title nd)"
  by (simp add: update_node_def set_link_def set_title_def set_parent_def Let_def)

lemma update_node_links:
  "n_links (update_node r nd) =
     (if strip (site r) \<noteq> [] \<and> strip (url r) \<noteq> []
      then Some (AList.update (strip (site r)) (strip (url r))
                  (case n_links nd of None \<Rightarrow> [] | Some ls \<Rightarrow> ls))
      else n_links nd)"
  by (simp add: update_node_def set_link_def set_title_def set_parent_def Let_def)

lemma fold_update_node_fixed:
  "n_id (fold update_node rs nd) = n_id nd"
  "n_level (fold update_node rs nd) = n_level nd"
  "n_ordinal (fold update_node rs nd) = n_ordinal nd"
  by (induction rs arbitrary: nd) (simp_all add: update_node_fixed)

lemma fold_update_node_parent:
  "n_parent (fold update_node rs nd) =
     (case filter (\<lambda>p. p \<noteq> []) (map (\<lambda>r. strip (parent_id r)) rs) of
        [] \<Rightarrow> n_parent nd
      | p # ps \<Rightarrow> Some (last (p # ps)))"
proof (induction rs arbitrary: nd)
  case Nil
  then show ?case by simp
next
  case (Cons r rs)
  show ?case
    by (simp add: Cons.IH update_node_parent split: list.splits)
qed

lemma fold_update_node_title:
  "n_title (fold update_node rs nd) =
     fold (\<lambda>r t. if strip (lang r) \<noteq> [] \<and> strip (title r) \<noteq> []
                  then AList.update (strip (lang r)) (strip (title r)) t else t) rs (n_title nd)"
  by (induction rs arbitrary: nd) (simp_all add: update_node_title)

lemma fold_update_node_links:
  "n_links (fold update_node rs nd) =
     fold (\<lambda>r l. if strip (site r) \<noteq> [] \<and> strip (url r) \<noteq> []
                  then Some (AList.update (strip (site r)) (strip (url r))
                              (case l of None \<Rightarrow> [] | Some ls \<Rightarrow> ls))
                  else l) rs (n_links nd)"
  by (induction rs arbitrary: nd) (simp_all add: update_node_links)

text \<open>
  Claim C3. In a work whose accumulation succeeds, take any node id \<open>k\<close> borne by at least
  one row (after trimming), \<open>first\<close> being the first such row and \<open>later\<close> the others in
  order. The node stored under \<open>k\<close> has the trimmed \<open>level_id\<close> and the parsed \<open>ordinal\<close> of
  \<open>first\<close>, whatever the later rows say; its parent is the last non-empty trimmed
  \<open>parent_id\<close> among all of these rows, first or later, and its titles and links are what
  all of these rows set in turn, a later row overwriting an earlier one on the same
  language or site.
\<close>

theorem node_fixed_by_first_row:
  assumes "accumulate wid rows [] = Inr nds"
      and "filter (\<lambda>r. strip (node_id r) = k) rows = first # later"
  shows "\<exists>nd. map_of nds k = Some nd
           \<and> n_id nd = k
           \<and> n_level nd = strip (level_id first)
           \<and> py_int (ordinal first) = Some (n_ordinal nd)
           \<and> n_parent nd =
               (case filter (\<lambda>p. p \<noteq> []) (map (\<lambda>r. strip (parent_id r)) (first # later)) of
                  [] \<Rightarrow> None
                | p # ps \<Rightarrow> Some (last (p # ps)))
           \<and> n_title nd =
               fold (\<lambda>r t. if strip (lang r) \<noteq> [] \<and> strip (title r) \<noteq> []
                            then AList.update (strip (lang r)) (strip (title r)) t else t)
                 (first # later) []
           \<and> n_links nd =
               fold (\<lambda>r l. if strip (site r) \<noteq> [] \<and> strip (url r) \<noteq> []
                            then Some (AList.update (strip (site r)) (strip (url r))
                                        (case l of None \<Rightarrow> [] | Some ls \<Rightarrow> ls))
                            else l)
                 (first # later) None"
proof -
  have "first \<in> set (filter (\<lambda>r. strip (node_id r) = k) rows)"
    unfolding assms(2) by simp
  then have "first \<in> set rows"
    by simp
  with accumulate_rows_ok [OF assms(1)] obtain n where n: "py_int (ordinal first) = Some n"
    by blast
  have m: "map_of nds k = Some (fold update_node (first # later) (new_node k (strip (level_id first)) n))"
    using accumulate_map_of [OF assms(1), of k] by (simp add: assms(2) n)
  show ?thesis
    unfolding m
    by (simp only: option.inject simp_thms ex_simps fold_update_node_fixed
          fold_update_node_parent fold_update_node_title fold_update_node_links)
       (simp add: new_node_def n split: list.splits)
qed

theorem node_fixed_by_first_row_witness:
  "accumulate ''W1'' book_rows [] = Inr book_nodes
   \<and> filter (\<lambda>r. strip (node_id r) = ''N1'') book_rows = [book_first, book_later]
   \<and> (\<exists>nd. map_of book_nodes ''N1'' = Some nd
          \<and> n_level nd = ''chapter'' \<and> n_ordinal nd = 2 \<and> n_parent nd = Some ''N0''
          \<and> n_title nd = [(''en'', ''Intro''), (''fr'', ''Intro-fr'')] \<and> n_links nd = None)"
proof -
  have f: "filter (\<lambda>r. strip (node_id r) = ''N1'') book_rows = [book_first, book_later]"
    by code_simp
  have e: "strip (level_id book_first) = ''chapter''" "py_int (ordinal book_first) = Some 2"
    "strip (parent_id book_first) = []" "strip (parent_id book_later) = ''N0''"
    "strip (lang book_first) = ''en''" "strip (title book_first) = ''Intro''"
    "strip (lang book_later) = ''fr''" "strip (title book_later) = ''Intro-fr''"
    "strip (site book_first) = []" "strip (site book_later) = []"
    by code_simp+
  from node_fixed_by_first_row [OF book_accumulate f]
  have "\<exists>nd. map_of book_nodes ''N1'' = Some nd \<and> n_id nd = ''N1''
          \<and> n_level nd = ''chapter'' \<and> n_ordinal nd = 2 \<and> n_parent nd = Some ''N0''
          \<and> n_title nd = [(''en'', ''Intro''), (''fr'', ''Intro-fr'')] \<and> n_links nd = None"
    by (simp add: e)
  with book_accumulate f show ?thesis by blast
qed

section \<open>Properties of referential validation\<close>

lemma validate_parents_None:
  "validate_parents nds xs = None \<longleftrightarrow>
     (\<forall>nd\<in>set xs. \<forall>p. n_parent nd = Some p \<longrightarrow> p \<in> fst ` set nds)"
  by (induction xs) (auto simp: map_of_eq_None_iff split: option.splits)

lemma validate_parents_Some:
  "validate_parents nds xs = Some e \<Longrightarrow>
     \<exists>nd p. find (\<lambda>nd. case n_parent nd of None \<Rightarrow> False | Some p \<Rightarrow> map_of nds p = None) xs = Some nd
           \<and> nd \<in> set xs \<and> n_parent nd = Some p \<and> p \<notin> fst ` set nds
           \<and> e = fail (parent_not_found p (n_id nd))"
  by (induction xs) (auto simp: map_of_eq_None_iff split: option.splits if_splits)

lemma accumulate_ids:
  assumes "accumulate wid rows [] = Inr nds" and "(k, nd) \<in> set nds"
  shows "n_id nd = k"
proof -
  have d: "distinct (map fst nds)"
    using accumulate_distinct [OF assms(1)] by simp
  with assms(2) have "map_of nds k = Some nd" by simp
  with accumulate_map_of [OF assms(1), of k] show ?thesis
    by (auto simp: fold_update_node_fixed update_node_fixed new_node_def
          split: list.splits option.splits)
qed

lemma accumulate_id_set:
  assumes "accumulate wid rows [] = Inr nds"
  shows "n_id ` snd ` set nds = fst ` set nds"
  using accumulate_ids [OF assms] by (force simp: image_iff)

lemma set_sorted_nodes: "set (sorted_nodes nds) = snd ` set nds"
  by (simp add: sorted_nodes_def)

lemma mset_sorted_nodes: "mset (sorted_nodes nds) = mset (map snd nds)"
  by (simp add: sorted_nodes_def)

lemma build_document_cases:
  assumes "accumulate wid rows [] = Inr nds"
  shows "build_document wid rows =
     (case validate_parents nds (map snd nds) of
        Some e \<Rightarrow> Inl e
      | None \<Rightarrow> Inr \<lparr>levels = infer_levels (map snd nds), nodes = sorted_nodes nds\<rparr>)"
  by (simp add: build_document_def assms)

text \<open>
  Claim C4 as stated does not hold. In \<open>dangling_rows\<close> the node \<open>N2\<close> has the parent \<open>N8\<close>
  recorded, which is the id of no node, and no document is emitted; but the run stops at
  the node \<open>N1\<close>, which comes first, and what it prints is
  \<open>ERROR: Parent 'N9' not found (node N1)\<close>: not a message that names \<open>N8\<close> and \<open>N2\<close>,
  and for \<open>N1\<close> itself not the text \<open>parent 'N9' not found (node N1)\<close> either.
\<close>

theorem parent_message_counterexample:
  "accumulate ''W1'' dangling_rows [] = Inr dangling_nodes
   \<and> map_option n_parent (map_of dangling_nodes ''N1'') = Some (Some ''N9'')
   \<and> map_option n_parent (map_of dangling_nodes ''N2'') = Some (Some ''N8'')
   \<and> map fst dangling_nodes = [''N1'', ''N2'']
   \<and> build_document ''W1'' dangling_rows
       = Inl (Exit ''ERROR: Parent 'N9' not found (node N1)'' 1)
   \<and> ''ERROR: Parent 'N9' not found (node N1)'' \<noteq> ''parent 'N8' not found (node N2)''
   \<and> ''ERROR: Parent 'N9' not found (node N1)'' \<noteq> ''parent 'N9' not found (node N1)''"
  by code_simp

text \<open>
  Claim C4, as amended. Once the rows of a work have been accumulated, the work has one
  of two outcomes and never both. Either its document is emitted: then it holds every
  accumulated node, and every node of it with a parent recorded has that parent among the
  ids of the nodes of the same document. Or the run fails with status 1 and the text
  \<open>ERROR: Parent 'P' not found (node N)\<close> of lines 27 and 99, where \<open>N\<close> is the first node
  in insertion order whose recorded parent \<open>P\<close> is the id of no node of the work. No node
  and no parent reference is dropped on the way.
\<close>

theorem parent_resolves_or_run_fails:
  assumes "accumulate wid rows [] = Inr nds"
  shows "(case build_document wid rows of
            Inr doc \<Rightarrow>
              set (nodes doc) = snd ` set nds
              \<and> (\<forall>nd\<in>set (nodes doc). \<forall>p. n_parent nd = Some p \<longrightarrow>
                    (\<exists>nd'\<in>set (nodes doc). n_id nd' = p))
          | Inl e \<Rightarrow>
              (\<exists>nd p. find (\<lambda>nd. case n_parent nd of None \<Rightarrow> False
                                   | Some p \<Rightarrow> map_of nds p = None) (map snd nds) = Some nd
                     \<and> nd \<in> snd ` set nds \<and> n_parent nd = Some p
                     \<and> (\<forall>nd'\<in>snd ` set nds. n_id nd' \<noteq> p)
                     \<and> e = Exit (''ERROR: Parent '' @ [CHR 0x27] @ p @ [CHR 0x27]
                                  @ '' not found (node '' @ n_id nd @ '')'') 1))"
proof (cases "validate_parents nds (map snd nds)")
  case None
  then have r: "\<forall>nd\<in>snd ` set nds. \<forall>p. n_parent nd = Some p \<longrightarrow> p \<in> n_id ` snd ` set nds"
    unfolding accumulate_id_set [OF assms] by (simp add: validate_parents_None)
  show ?thesis
    using r by (auto simp: build_document_cases [OF assms] None set_sorted_nodes)
next
  case (Some e)
  from validate_parents_Some [OF Some] accumulate_id_set [OF assms]
  have "\<exists>nd p. find (\<lambda>nd. case n_parent nd of None \<Rightarrow> False
                                   | Some p \<Rightarrow> map_of nds p = None) (map snd nds) = Some nd
                     \<and> nd \<in> snd ` set nds \<and> n_parent nd = Some p
                     \<and> (\<forall>nd'\<in>snd ` set nds. n_id nd' \<noteq> p)
                     \<and> e = fail (parent_not_found p (n_id nd))"
    by simp blast
  then show ?thesis
    by (simp add: build_document_cases [OF assms] Some fail_def parent_not_found_def)
qed

theorem parent_resolves_or_run_fails_witness:
  "accumulate ''W1'' dangling_rows [] = Inr dangling_nodes
   \<and> build_document ''W1'' dangling_rows
       = Inl (Exit ''ERROR: Parent 'N9' not found (node N1)'' 1)
   \<and> (\<exists>nd p. find (\<lambda>nd. case n_parent nd of None \<Rightarrow> False
                          | Some p \<Rightarrow> map_of dangling_nodes p = None)
                 (map snd dangling_nodes) = Some nd
          \<and> n_parent nd = Some p
          \<and> Exit ''ERROR: Parent 'N9' not found (node N1)'' 1
              = Exit (''ERROR: Parent '' @ [CHR 0x27] @ p @ [CHR 0x27]
                      @ '' not found (node '' @ n_id nd @ '')'') 1)
   \<and> accumulate ''W1'' book_rows [] = Inr book_nodes
   \<and> build_document ''W1'' book_rows = Inr book_doc
   \<and> set (nodes book_doc) = snd ` set book_nodes"
proof -
  have d: "build_document ''W1'' dangling_rows
             = Inl (Exit ''ERROR: Parent 'N9' not found (node N1)'' 1)"
    by code_simp
  from parent_resolves_or_run_fails [OF dangling_accumulate]
  have "\<exists>nd p. find (\<lambda>nd. case n_parent nd of None \<Rightarrow> False
                          | Some p \<Rightarrow> map_of dangling_nodes p = None)
                 (map snd dangling_nodes) = Some nd
          \<and> n_parent nd = Some p
          \<and> Exit ''ERROR: Parent 'N9' not found (node N1)'' 1
              = Exit (''ERROR: Parent '' @ [CHR 0x27] @ p @ [CHR 0x27]
                      @ '' not found (node '' @ n_id nd @ '')'') 1"
    unfolding d by (simp only: sum.case) blast
  moreover from parent_resolves_or_run_fails [OF book_accumulate]
  have "set (nodes book_doc) = snd ` set book_nodes"
    unfolding book_document by (simp only: sum.case)
  ultimately show ?thesis
    using dangling_accumulate d book_accumulate book_document by blast
qed

text \<open>
  Claim C10. Referential validation is a membership test and nothing more: once the rows
  of a work have been accumulated, its document is emitted, with all accumulated nodes
  and their parent references as they are, exactly when every recorded parent is a key of
  the node dictionary. A node that is its own parent, or nodes whose parents form a
  cycle, pass.
\<close>

theorem validation_is_membership_only:
  assumes "accumulate wid rows [] = Inr nds"
  shows "(\<exists>doc. build_document wid rows = Inr doc \<and> mset (nodes doc) = mset (map snd nds))
           \<longleftrightarrow> (\<forall>nd\<in>snd ` set nds. \<forall>p. n_parent nd = Some p \<longrightarrow> p \<in> fst ` set nds)"
proof (cases "validate_parents nds (map snd nds)")
  case None
  then have "\<forall>nd\<in>snd ` set nds. \<forall>p. n_parent nd = Some p \<longrightarrow> p \<in> fst ` set nds"
    by (simp add: validate_parents_None)
  then show ?thesis
    by (simp add: build_document_cases [OF assms] None mset_sorted_nodes)
next
  case (Some e)
  then have "validate_parents nds (map snd nds) \<noteq> None" by simp
  then have "\<not> (\<forall>nd\<in>snd ` set nds. \<forall>p. n_parent nd = Some p \<longrightarrow> p \<in> fst ` set nds)"
    by (simp add: validate_parents_None)
  then show ?thesis
    by (simp add: build_document_cases [OF assms] Some)
qed

theorem validation_is_membership_only_witness:
  "accumulate ''W1'' cycle_rows [] = Inr cycle_nodes
   \<and> map_of cycle_nodes ''S''
       = Some \<lparr>n_id = ''S'', n_level = ''chapter'', n_ordinal = 1,
               n_title = [], n_parent = Some ''S'', n_links = None\<rparr>
   \<and> (\<exists>doc. build_document ''W1'' cycle_rows = Inr doc
            \<and> mset (nodes doc) = mset (map snd cycle_nodes))"
proof -
  have "\<forall>nd\<in>snd ` set cycle_nodes. \<forall>p. n_parent nd = Some p \<longrightarrow> p \<in> fst ` set cycle_nodes"
    by (simp add: cycle_nodes_def)
  with validation_is_membership_only [OF cycle_accumulate]
  have "\<exists>doc. build_document ''W1'' cycle_rows = Inr doc
            \<and> mset (nodes doc) = mset (map snd cycle_nodes)"
    by blast
  moreover have "map_of cycle_nodes ''S''
       = Some \<lparr>n_id = ''S'', n_level = ''chapter'', n_ordinal = 1,
               n_title = [], n_parent = Some ''S'', n_links = None\<rparr>"
    by (simp add: cycle_nodes_def)
  ultimately show ?thesis
    using cycle_accumulate by blast
qed

section \<open>Properties of level inference\<close>

lemma level_ordinals_step_map_of:
  "map_of (level_ordinals_step nd lo) l =
     (if n_level nd = l
      then Some (min (case map_of lo l of None \<Rightarrow> n_ordinal nd | Some v \<Rightarrow> v) (n_ordinal nd))
      else map_of lo l)"
  by (simp add: level_ordinals_step_def update_conv')

lemma Min_insert_min:
  fixes a b :: int
  assumes "finite S"
  shows "Min (insert (min a b) S) = Min (insert a (insert b S))"
proof (cases "S = {}")
  case True
  then show ?thesis by simp
next
  case False
  with assms show ?thesis by (simp add: min.assoc)
qed

lemma fold_level_ordinals_map_of:
  "map_of (fold level_ordinals_step nds lo) l =
     (case map_of lo l of
        None \<Rightarrow>
          if filter (\<lambda>n. n_level n = l) nds = [] then None
          else Some (Min (n_ordinal ` set (filter (\<lambda>n. n_level n = l) nds)))
      | Some v \<Rightarrow> Some (Min (insert v (n_ordinal ` set (filter (\<lambda>n. n_level n = l) nds)))))"
proof (induction nds arbitrary: lo)
  case Nil
  then show ?case by (simp split: option.splits)
next
  case (Cons nd nds)
  show ?case
    by (simp add: Cons.IH level_ordinals_step_map_of Min_insert_min del: set_filter
          split: option.splits)
qed

lemma fold_level_ordinals_distinct:
  "distinct (map fst lo) \<Longrightarrow> distinct (map fst (fold level_ordinals_step nds lo))"
  by (induction nds arbitrary: lo) (simp_all add: level_ordinals_step_def distinct_update)

lemma level_ordinals_distinct: "distinct (map fst (level_ordinals nds))"
  unfolding level_ordinals_def by (rule fold_level_ordinals_distinct) simp

lemma level_ordinals_map_of:
  "map_of (level_ordinals nds) l =
     (if filter (\<lambda>n. n_level n = l) nds = [] then None
      else Some (Min (n_ordinal ` set (filter (\<lambda>n. n_level n = l) nds))))"
  unfolding level_ordinals_def by (simp add: fold_level_ordinals_map_of)

lemma level_ordinals_keys: "fst ` set (level_ordinals nds) = n_level ` set nds"
proof -
  have "dom (map_of (level_ordinals nds)) = n_level ` set nds"
    by (auto simp: level_ordinals_map_of dom_def filter_empty_conv split: if_splits)
  then show ?thesis by (simp add: dom_map_of_conv_image_fst)
qed

lemma infer_levels_ids: "map l_id (infer_levels nds) = map fst (sort_key snd (level_ordinals nds))"
  by (simp add: infer_levels_def case_prod_beta)

lemma infer_levels_ordinals:
  "map l_ordinal (infer_levels nds) = map snd (sort_key snd (level_ordinals nds))"
  by (simp add: infer_levels_def case_prod_beta)

lemma infer_levels_distinct: "distinct (map l_id (infer_levels nds))"
proof -
  have "mset (map fst (sort_key snd (level_ordinals nds))) = mset (map fst (level_ordinals nds))"
    by simp
  then have "distinct (map fst (sort_key snd (level_ordinals nds)))
               = distinct (map fst (level_ordinals nds))"
    by (rule mset_eq_imp_distinct_iff)
  then show ?thesis by (simp add: infer_levels_ids level_ordinals_distinct)
qed

lemma infer_levels_set:
  "set (infer_levels nds) = (\<lambda>(lvl, n). \<lparr>l_id = lvl, l_ordinal = n\<rparr>) ` set (level_ordinals nds)"
  by (simp add: infer_levels_def)

lemma infer_levels_min:
  assumes "lv \<in> set (infer_levels nds)"
  shows "l_ordinal lv = Min (n_ordinal ` {n \<in> set nds. n_level n = l_id lv})"
proof -
  from assms obtain l v where lv: "lv = \<lparr>l_id = l, l_ordinal = v\<rparr>" and
    mem: "(l, v) \<in> set (level_ordinals nds)"
    by (auto simp: infer_levels_set)
  from mem level_ordinals_distinct have "map_of (level_ordinals nds) l = Some v"
    by simp
  then have "v = Min (n_ordinal ` set (filter (\<lambda>n. n_level n = l) nds))"
    by (simp add: level_ordinals_map_of split: if_splits)
  then show ?thesis by (simp add: lv)
qed

text \<open>
  Claim C6. In every emitted document the level list has one entry for each level value
  carried by a node of the document and no value twice, the ordinal of an entry is the
  least ordinal among the nodes carrying its level, and the list is in ascending order
  of these ordinals.
\<close>

theorem levels_minimum_sorted:
  assumes "build_document wid rows = Inr doc"
  shows "distinct (map l_id (levels doc))
         \<and> set (map l_id (levels doc)) = n_level ` set (nodes doc)
         \<and> (\<forall>lv\<in>set (levels doc).
               l_ordinal lv = Min (n_ordinal ` {n \<in> set (nodes doc). n_level n = l_id lv}))
         \<and> sorted (map l_ordinal (levels doc))"
proof -
  from assms obtain nds where
    doc: "doc = \<lparr>levels = infer_levels (map snd nds), nodes = sorted_nodes nds\<rparr>"
    by (auto simp: build_document_def split: sum.splits option.splits)
  have s: "set (nodes doc) = set (map snd nds)"
    by (simp add: doc set_sorted_nodes)
  have l: "levels doc = infer_levels (map snd nds)"
    by (simp add: doc)
  have "set (map l_id (levels doc)) = n_level ` set (nodes doc)"
    unfolding l s infer_levels_ids by (simp add: level_ordinals_keys)
  moreover have "sorted (map l_ordinal (levels doc))"
    unfolding l infer_levels_ordinals by (rule sorted_sort_key)
  moreover have "\<forall>lv\<in>set (levels doc).
      l_ordinal lv = Min (n_ordinal ` {n \<in> set (nodes doc). n_level n = l_id lv})"
    unfolding l s by (blast intro: infer_levels_min)
  ultimately show ?thesis
    by (simp add: l infer_levels_distinct)
qed

theorem levels_minimum_sorted_witness:
  "build_document ''W1'' book_rows = Inr book_doc
   \<and> distinct (map l_id (levels book_doc))
   \<and> set (map l_id (levels book_doc)) = n_level ` set (nodes book_doc)
   \<and> l_ordinal (hd (levels book_doc))
       = Min (n_ordinal ` {n \<in> set (nodes book_doc). n_level n = l_id (hd (levels book_doc))})
   \<and> sorted (map l_ordinal (levels book_doc))"
proof -
  have "hd (levels book_doc) \<in> set (levels book_doc)"
    by (simp add: book_doc_def)
  with levels_minimum_sorted [OF book_document] book_document show ?thesis
    by blast
qed

section \<open>Properties of the node order\<close>

lemma accumulate_parent_nonempty:
  assumes "accumulate wid rows [] = Inr nds" and "(k, nd) \<in> set nds"
  shows "n_parent nd \<noteq> Some []"
proof -
  have "distinct (map fst nds)"
    using accumulate_distinct [OF assms(1)] by simp
  with assms(2) have m: "map_of nds k = Some nd" by simp
  have ne: "last (p # ps) \<noteq> []"
    if "filter (\<lambda>p. p \<noteq> []) xs = p # ps" for p ps and xs :: "string list"
  proof -
    have "last (p # ps) \<in> set (filter (\<lambda>p. p \<noteq> []) xs)"
      unfolding that by (rule last_in_set) simp
    then show ?thesis by simp
  qed
  from accumulate_map_of [OF assms(1), of k] m obtain r rs n where
    nd: "nd = fold update_node (r # rs) (new_node k (strip (level_id r)) n)"
    by (auto split: list.splits option.splits)
  show ?thesis
    unfolding nd fold_update_node_parent
    using ne by (auto simp: new_node_def split: list.splits)
qed

lemma accumulate_id_list:
  assumes "accumulate wid rows [] = Inr nds"
  shows "map n_id (map snd nds) = map fst nds"
  using accumulate_ids [OF assms] by (auto simp: map_eq_conv)

lemma sorted_nodes_distinct_ids:
  assumes "accumulate wid rows [] = Inr nds"
  shows "distinct (map n_id (sorted_nodes nds))"
proof -
  have "mset (map n_id (sorted_nodes nds)) = image_mset n_id (mset (sorted_nodes nds))"
    by (simp only: mset_map)
  also have "\<dots> = image_mset n_id (mset (map snd nds))"
    by (simp only: mset_sorted_nodes)
  also have "\<dots> = mset (map n_id (map snd nds))"
    by (simp only: mset_map)
  finally have "mset (map n_id (sorted_nodes nds)) = mset (map fst nds)"
    by (simp only: accumulate_id_list [OF assms])
  moreover have "distinct (map fst nds)"
    using accumulate_distinct [OF assms] by simp
  ultimately show ?thesis
    by (metis mset_eq_imp_distinct_iff)
qed

lemma sorted_nodes_sorted: "sorted (map sort_key_node (sorted_nodes nds))"
  unfolding sorted_nodes_def by (rule sorted_sort_key)

lemma sorted_key_nth:
  assumes "sorted (map sort_key_node xs)" and "i \<le> j" and "j < length xs"
  shows "sort_key_node (xs ! i) \<le> sort_key_node (xs ! j)"
  using sorted_nth_mono [OF assms(1), of i j] assms(2,3) by simp

text \<open>
  Claim C7. In every emitted document the node list is in ascending order of the key
  (parent or the empty string, ordinal, id), strings compared lexicographically and
  ordinals as integers. The ids are pairwise different, and so: a node without parent
  stands before every node with a parent; of two nodes with the same parent the earlier
  one has the smaller or the same ordinal; and with the same parent and the same ordinal
  the earlier one has the smaller id.
\<close>

theorem nodes_sorted_by_key:
  assumes "build_document wid rows = Inr doc"
  shows "sorted (map sort_key_node (nodes doc))
         \<and> distinct (map n_id (nodes doc))
         \<and> (\<forall>i j. i < length (nodes doc) \<and> j < length (nodes doc)
                  \<and> n_parent (nodes doc ! i) = None \<and> n_parent (nodes doc ! j) \<noteq> None
                \<longrightarrow> i < j)
         \<and> (\<forall>i j. i < j \<and> j < length (nodes doc)
                  \<and> n_parent (nodes doc ! i) = n_parent (nodes doc ! j)
                \<longrightarrow> n_ordinal (nodes doc ! i) \<le> n_ordinal (nodes doc ! j))
         \<and> (\<forall>i j. i < j \<and> j < length (nodes doc)
                  \<and> n_parent (nodes doc ! i) = n_parent (nodes doc ! j)
                  \<and> n_ordinal (nodes doc ! i) = n_ordinal (nodes doc ! j)
                \<longrightarrow> n_id (nodes doc ! i) < n_id (nodes doc ! j))"
proof -
  from assms obtain nds where
    acc: "accumulate wid rows [] = Inr nds" and
    doc: "doc = \<lparr>levels = infer_levels (map snd nds), nodes = sorted_nodes nds\<rparr>"
    by (auto simp: build_document_def split: sum.splits option.splits)
  define xs where "xs = nodes doc"
  have xs: "xs = sorted_nodes nds" by (simp add: xs_def doc)
  have srt: "sorted (map sort_key_node xs)"
    unfolding xs by (rule sorted_nodes_sorted)
  have dist: "distinct (map n_id xs)"
    unfolding xs by (rule sorted_nodes_distinct_ids [OF acc])
  have par: "n_parent nd \<noteq> Some []" if "nd \<in> set xs" for nd
    using that accumulate_parent_nonempty [OF acc] by (auto simp: xs set_sorted_nodes)
  have roots: "i < j"
    if "i < length xs" "j < length xs" "n_parent (xs ! i) = None" "n_parent (xs ! j) \<noteq> None"
    for i j
  proof (rule ccontr)
    assume "\<not> i < j"
    then have "j \<le> i" by simp
    from sorted_key_nth [OF srt this that(1)]
    have "sort_key_node (xs ! j) \<le> sort_key_node (xs ! i)" .
    moreover from that(4) obtain p where p: "n_parent (xs ! j) = Some p" by auto
    moreover from par [of "xs ! j"] that(2) p have "p \<noteq> []" by auto
    ultimately show False
      using that(3) by (auto simp: sort_key_node_def less_eq_prod_def)
  qed
  have ords: "n_ordinal (xs ! i) \<le> n_ordinal (xs ! j)"
    if "i < j" "j < length xs" "n_parent (xs ! i) = n_parent (xs ! j)" for i j
  proof -
    from that(1) have "i \<le> j" by simp
    from sorted_key_nth [OF srt this that(2)] that(3) show ?thesis
      by (auto simp: sort_key_node_def less_eq_prod_def)
  qed
  have ids: "n_id (xs ! i) < n_id (xs ! j)"
    if "i < j" "j < length xs" "n_parent (xs ! i) = n_parent (xs ! j)"
       "n_ordinal (xs ! i) = n_ordinal (xs ! j)" for i j
  proof -
    from that(1) have "i \<le> j" by simp
    from sorted_key_nth [OF srt this that(2)] that(3,4)
    have le: "n_id (xs ! i) \<le> n_id (xs ! j)"
      by (auto simp: sort_key_node_def less_eq_prod_def)
    have "(map n_id xs ! i = map n_id xs ! j) = (i = j)"
      by (rule nth_eq_iff_index_eq [OF dist]) (use that(1,2) in simp_all)
    with that(1,2) have "n_id (xs ! i) \<noteq> n_id (xs ! j)" by simp
    with le show ?thesis by simp
  qed
  show ?thesis
    unfolding xs_def [symmetric]
    using srt dist roots ords ids by blast
qed

theorem nodes_sorted_by_key_witness:
  "build_document ''W1'' book_rows = Inr book_doc
   \<and> sorted (map sort_key_node (nodes book_doc))
   \<and> distinct (map n_id (nodes book_doc))
   \<and> n_parent (nodes book_doc ! 0) = None \<and> n_parent (nodes book_doc ! 1) \<noteq> None
   \<and> n_parent (nodes book_doc ! 2) = n_parent (nodes book_doc ! 3)
   \<and> n_ordinal (nodes book_doc ! 2) \<le> n_ordinal (nodes book_doc ! 3)
   \<and> n_id (nodes book_doc ! 2) < n_id (nodes book_doc ! 3)"
proof -
  have e: "n_parent (nodes book_doc ! 0) = None" "n_parent (nodes book_doc ! 1) \<noteq> None"
    "n_parent (nodes book_doc ! 2) = n_parent (nodes book_doc ! 3)"
    "n_ordinal (nodes book_doc ! 2) = n_ordinal (nodes book_doc ! 3)"
    "(2::nat) < 3" "3 < length (nodes book_doc)"
    by (simp_all add: book_doc_def node_N0_def node_N1_def node_N2_def node_N3_def)
  from nodes_sorted_by_key [OF book_document] e book_document show ?thesis
    by blast
qed

section \<open>Properties of the run\<close>

lemma accumulate_append:
  "accumulate wid (xs @ ys) nds =
     (case accumulate wid xs nds of Inl e \<Rightarrow> Inl e | Inr nds' \<Rightarrow> accumulate wid ys nds')"
  by (induction xs arbitrary: nds) (simp_all split: sum.splits)

lemma accumulate_key_nonempty:
  assumes "accumulate wid rows [] = Inr nds" and "map_of nds k = Some nd"
  shows "k \<noteq> []"
proof -
  from accumulate_map_of [OF assms(1), of k] assms(2)
  obtain r rs where f: "filter (\<lambda>r. strip (node_id r) = k) rows = r # rs"
    by (auto split: list.splits)
  have "r \<in> set (filter (\<lambda>r. strip (node_id r) = k) rows)"
    unfolding f by simp
  then have "r \<in> set rows" and "strip (node_id r) = k" by simp_all
  with accumulate_rows_ok [OF assms(1)] show ?thesis by blast
qed

lemma accumulate_row_bad_ordinal:
  "strip (node_id r) \<noteq> [] \<Longrightarrow> py_int (ordinal r) = None \<Longrightarrow>
     accumulate_row wid r nds = Inl (ValueError (ordinal r))"
  by (simp add: accumulate_row_def)

text \<open>
  Claim C9. \<open>int\<close> runs on the \<open>ordinal\<close> of every row. When the rows \<open>before\<close> have been
  accumulated and have created the node that the row \<open>r\<close> names, and the \<open>ordinal\<close> of
  \<open>r\<close> is no integer, the row raises \<open>ValueError\<close> although its value would not be
  stored, and the run of the work ends there with status 1, whatever rows come after
  and whatever the file system allows.
\<close>

theorem ordinal_parsed_on_every_row:
  assumes "accumulate wid before [] = Inr nds"
      and "map_of nds (strip (node_id r)) = Some nd"
      and "py_int (ordinal r) = None"
  shows "accumulate_row wid r nds = Inl (ValueError (ordinal r))
         \<and> build_document wid (before @ r # after) = Inl (ValueError (ordinal r))
         \<and> build_work_structure fs wid (before @ r # after) s = Inl (ValueError (ordinal r))
         \<and> exit_status (ValueError (ordinal r)) = 1"
proof -
  have ne: "strip (node_id r) \<noteq> []"
    by (rule accumulate_key_nonempty [OF assms(1,2)])
  have row: "accumulate_row wid r nds = Inl (ValueError (ordinal r))"
    by (rule accumulate_row_bad_ordinal [OF ne assms(3)])
  have "accumulate wid (before @ r # after) [] = Inl (ValueError (ordinal r))"
    by (simp add: accumulate_append assms(1) row)
  then have doc: "build_document wid (before @ r # after) = Inl (ValueError (ordinal r))"
    by (simp add: build_document_def)
  show ?thesis
    by (simp add: row doc build_work_structure_def)
qed

theorem ordinal_parsed_on_every_row_witness:
  "accumulate ''W1'' [repeat_good] []
     = Inr [(''N1'', \<lparr>n_id = ''N1'', n_level = ''chapter'', n_ordinal = 1,
                      n_title = [(''en'', ''Intro'')], n_parent = None, n_links = None\<rparr>)]
   \<and> strip (node_id repeat_bad) = ''N1''
   \<and> py_int (ordinal repeat_bad) = None
   \<and> build_document ''W1'' ([repeat_good] @ repeat_bad # [repeat_good])
       = Inl (ValueError ''one'')
   \<and> build_work_structure every_path_opens ''W1'' ([repeat_good] @ repeat_bad # [repeat_good])
         \<lparr>files = [], stdout = []\<rparr>
       = Inl (ValueError ''one'')"
proof -
  have a: "accumulate ''W1'' [repeat_good] []
     = Inr [(''N1'', \<lparr>n_id = ''N1'', n_level = ''chapter'', n_ordinal = 1,
                      n_title = [(''en'', ''Intro'')], n_parent = None, n_links = None\<rparr>)]"
    by code_simp
  have k: "strip (node_id repeat_bad) = ''N1''"
    by code_simp
  have m: "map_of [(''N1'', \<lparr>n_id = ''N1'', n_level = ''chapter'', n_ordinal = 1,
                      n_title = [(''en'', ''Intro'')], n_parent = None, n_links = None\<rparr>)]
             (strip (node_id repeat_bad))
           = Some \<lparr>n_id = ''N1'', n_level = ''chapter'', n_ordinal = 1,
                      n_title = [(''en'', ''Intro'')], n_parent = None, n_links = None\<rparr>"
    by (simp add: k)
  have b: "py_int (ordinal repeat_bad) = None"
    by code_simp
  have o: "ordinal repeat_bad = ''one''"
    by (simp add: repeat_bad_def mk_row_def)
  from ordinal_parsed_on_every_row
         [where fs = every_path_opens and after = "[repeat_good]"
            and s = "\<lparr>files = [], stdout = []\<rparr>", OF a m b]
  show ?thesis
    using a k b by (simp add: o)
qed

lemma build_all_files:
  assumes "build_all fs ws s = (s', res)"
  shows "\<exists>written. files s' = files s @ written
           \<and> list_all2 (\<lambda>g (path, doc). path = out_path (fst g) \<and> fs path = None
                             \<and> build_document (fst g) (snd g) = Inr doc)
                (take (length written) ws) written
           \<and> (case res of
                 None \<Rightarrow> length written = length ws
               | Some e \<Rightarrow> length written < length ws
                    \<and> (case build_document (fst (ws ! length written))
                               (snd (ws ! length written)) of
                         Inl e' \<Rightarrow> e = e'
                       | Inr doc \<Rightarrow> fs (out_path (fst (ws ! length written))) = Some e))"
  using assms
proof (induction ws arbitrary: s)
  case Nil
  then show ?case by auto
next
  case (Cons g ws)
  obtain w rs where g: "g = (w, rs)" by (cases g)
  show ?case
  proof (cases "build_work_structure fs w rs s")
    case (Inl e)
    with Cons.prems have r: "s' = s" "res = Some e"
      by (simp_all add: g)
    from Inl have "(case build_document w rs of
                      Inl e' \<Rightarrow> e = e'
                    | Inr doc \<Rightarrow> fs (out_path w) = Some e)"
      by (auto simp: build_work_structure_def split: sum.splits option.splits)
    then show ?thesis
      by (auto simp: g r split: sum.splits)
  next
    case (Inr s1)
    then obtain doc where
      doc: "build_document w rs = Inr doc" and op: "fs (out_path w) = None" and
      s1: "files s1 = files s @ [(out_path w, doc)]"
      by (auto simp: build_work_structure_def split: sum.splits option.splits)
    from Cons.prems have "build_all fs ws s1 = (s', res)"
      by (simp add: g Inr)
    from Cons.IH [OF this] obtain written where
      f: "files s' = files s1 @ written" and
      l: "list_all2 (\<lambda>g (path, doc). path = out_path (fst g) \<and> fs path = None
                         \<and> build_document (fst g) (snd g) = Inr doc)
            (take (length written) ws) written" and
      r: "(case res of
             None \<Rightarrow> length written = length ws
           | Some e \<Rightarrow> length written < length ws
                \<and> (case build_document (fst (ws ! length written))
                           (snd (ws ! length written)) of
                     Inl e' \<Rightarrow> e = e'
                   | Inr doc \<Rightarrow> fs (out_path (fst (ws ! length written))) = Some e))"
      by blast
    let ?written = "(out_path w, doc) # written"
    have "files s' = files s @ ?written"
      by (simp add: f s1)
    moreover have "list_all2 (\<lambda>g (path, doc). path = out_path (fst g) \<and> fs path = None
                         \<and> build_document (fst g) (snd g) = Inr doc)
            (take (length ?written) (g # ws)) ?written"
      using l by (simp add: g doc op)
    moreover have "(case res of
             None \<Rightarrow> length ?written = length (g # ws)
           | Some e \<Rightarrow> length ?written < length (g # ws)
                \<and> (case build_document (fst ((g # ws) ! length ?written))
                           (snd ((g # ws) ! length ?written)) of
                     Inl e' \<Rightarrow> e = e'
                   | Inr doc \<Rightarrow> fs (out_path (fst ((g # ws) ! length ?written))) = Some e))"
      using r by (auto split: option.splits sum.splits)
    ultimately show ?thesis by blast
  qed
qed

text \<open>
  Claim C1, as amended. With all columns present, the run takes the work groups in the
  order in which each \<open>work_id\<close>, as read, first appears among the rows, the group of a
  \<open>work_id\<close> being the rows that bear it, and writes the document of a group to its path
  as soon as it is built. The writes of a run are exactly these, in this order: one for
  each group before the first group that fails, be it on a validation error or because
  its file does not open. Nothing is written for the failing group or for a group after
  it, the writes made before it have happened, and the run ends with the failure of that
  group. A run in which no group fails writes one document for every group.
\<close>

theorem output_up_to_first_failure:
  assumes "validate_columns fieldnames = None"
      and "main fs fieldnames rows = (s, res)"
  shows "list_all2 (\<lambda>w (path, doc). path = out_path w \<and> fs path = None
                        \<and> build_document w (filter (\<lambda>r. work_id r = w) rows) = Inr doc)
           (take (length (files s)) (first_seen (map work_id rows))) (files s)
         \<and> (case res of
               None \<Rightarrow> length (files s) = length (first_seen (map work_id rows))
             | Some e \<Rightarrow> length (files s) < length (first_seen (map work_id rows))
                  \<and> (case build_document (first_seen (map work_id rows) ! length (files s))
                             (filter (\<lambda>r. work_id r
                                            = first_seen (map work_id rows) ! length (files s))
                                rows) of
                       Inl e' \<Rightarrow> e = e'
                     | Inr doc \<Rightarrow>
                         fs (out_path (first_seen (map work_id rows) ! length (files s)))
                           = Some e))"
proof -
  define ids where "ids = first_seen (map work_id rows)"
  define grp where "grp = (\<lambda>w. (w, filter (\<lambda>r. work_id r = w) rows))"
  have g: "group_rows rows = map grp ids"
    unfolding ids_def grp_def by (rule group_rows_first_seen)
  from assms have "build_all fs (map grp ids) \<lparr>files = [], stdout = []\<rparr> = (s, res)"
    by (simp add: main_def g)
  from build_all_files [OF this]
  have l: "list_all2 (\<lambda>g (path, doc). path = out_path (fst g) \<and> fs path = None
                         \<and> build_document (fst g) (snd g) = Inr doc)
            (take (length (files s)) (map grp ids)) (files s)"
    and r: "(case res of
             None \<Rightarrow> length (files s) = length (map grp ids)
           | Some e \<Rightarrow> length (files s) < length (map grp ids)
                \<and> (case build_document (fst (map grp ids ! length (files s)))
                           (snd (map grp ids ! length (files s))) of
                     Inl e' \<Rightarrow> e = e'
                   | Inr doc \<Rightarrow> fs (out_path (fst (map grp ids ! length (files s)))) = Some e))"
    by simp_all
  from l have "list_all2 (\<lambda>w (path, doc). path = out_path w \<and> fs path = None
                        \<and> build_document w (filter (\<lambda>r. work_id r = w) rows) = Inr doc)
           (take (length (files s)) ids) (files s)"
    by (simp add: take_map list_all2_map1 grp_def)
  moreover from r have "(case res of
               None \<Rightarrow> length (files s) = length ids
             | Some e \<Rightarrow> length (files s) < length ids
                  \<and> (case build_document (ids ! length (files s))
                             (filter (\<lambda>r. work_id r = ids ! length (files s)) rows) of
                       Inl e' \<Rightarrow> e = e'
                     | Inr doc \<Rightarrow> fs (out_path (ids ! length (files s))) = Some e))"
    by (auto simp: grp_def split: option.splits sum.splits)
  ultimately show ?thesis
    unfolding ids_def by blast
qed

theorem output_up_to_first_failure_witness:
  "validate_columns REQUIRED_COLUMNS = None
   \<and> main every_path_opens REQUIRED_COLUMNS mixed_rows
       = (mixed_sink, Some (Exit ''ERROR: Empty node_id in work W2'' 1))
   \<and> first_seen (map work_id mixed_rows) = [''W1'', ''W2'', ''W3'']
   \<and> files mixed_sink = [(''structures/W1.structure.yaml'', mixed_doc)]
   \<and> build_document ''W1'' (filter (\<lambda>r. work_id r = ''W1'') mixed_rows) = Inr mixed_doc
   \<and> build_document ''W2'' (filter (\<lambda>r. work_id r = ''W2'') mixed_rows)
       = Inl (Exit ''ERROR: Empty node_id in work W2'' 1)
   \<and> main flat_directory REQUIRED_COLUMNS slash_rows
       = (mixed_sink, Some (OSError ''structures/a/b.structure.yaml''))
   \<and> first_seen (map work_id slash_rows) = [''W1'', ''a/b'', ''W3'']
   \<and> build_document ''a/b'' (filter (\<lambda>r. work_id r = ''a/b'') slash_rows) = Inr mixed_doc
   \<and> flat_directory (out_path ''a/b'') = Some (OSError ''structures/a/b.structure.yaml'')"
proof -
  have v: "validate_columns REQUIRED_COLUMNS = None"
    by code_simp
  have i: "first_seen (map work_id mixed_rows) = [''W1'', ''W2'', ''W3'']"
    "first_seen (map work_id slash_rows) = [''W1'', ''a/b'', ''W3'']"
    by code_simp+
  have f: "files mixed_sink = [(''structures/W1.structure.yaml'', mixed_doc)]"
    by (simp add: mixed_sink_def)
  have b: "build_document ''a/b'' (filter (\<lambda>r. work_id r = ''a/b'') slash_rows) = Inr mixed_doc"
    by code_simp
  from output_up_to_first_failure [OF v mixed_main]
  have "build_document ''W1'' (filter (\<lambda>r. work_id r = ''W1'') mixed_rows) = Inr mixed_doc
        \<and> build_document ''W2'' (filter (\<lambda>r. work_id r = ''W2'') mixed_rows)
            = Inl (Exit ''ERROR: Empty node_id in work W2'' 1)"
    unfolding i f by (auto split: sum.splits simp: every_path_opens_def)
  moreover from output_up_to_first_failure [OF v slash_main]
  have "flat_directory (out_path ''a/b'') = Some (OSError ''structures/a/b.structure.yaml'')"
    unfolding i f by (simp add: b)
  ultimately show ?thesis
    using v mixed_main slash_main i f b by blast
qed

text \<open>
  Claim C1 as stated does not hold: in \<open>mixed_rows\<close> the second work has a row with an
  empty \<open>node_id\<close>, the run fails on it with status 1, and the document of the first
  work has been written by then.
\<close>

theorem partial_output_counterexample:
  "snd (main every_path_opens REQUIRED_COLUMNS mixed_rows)
     = Some (Exit ''ERROR: Empty node_id in work W2'' 1)
   \<and> exit_status (Exit ''ERROR: Empty node_id in work W2'' 1) = 1
   \<and> files (fst (main every_path_opens REQUIRED_COLUMNS mixed_rows))
       = [(''structures/W1.structure.yaml'', mixed_doc)]"
  by (simp add: mixed_main mixed_sink_def)

text \<open>
  Claim C2 at a concrete input. A row with the \<open>ordinal\<close> \<open>one\<close> ends the run with the
  uncaught \<open>ValueError\<close> of \<open>int\<close>, not through \<open>fail\<close>: what is reported is the
  literal alone, the same for work \<open>W1\<close>, node \<open>N1\<close> and for work \<open>W2\<close>, node \<open>N2\<close>,
  whereas the empty \<open>node_id\<close> next to it is reported through \<open>fail\<close> with the work named.
\<close>

theorem non_integer_ordinal_unreported:
  "main every_path_opens REQUIRED_COLUMNS [repeat_bad]
     = (\<lparr>files = [], stdout = []\<rparr>, Some (ValueError ''one''))
   \<and> build_document ''W1'' [mk_row ''W1'' ''N1'' '''' ''chapter'' ''one'' '''' '''' '''' '''']
       = Inl (ValueError ''one'')
   \<and> build_document ''W2'' [mk_row ''W2'' ''N2'' '''' ''chapter'' ''one'' '''' '''' '''' '''']
       = Inl (ValueError ''one'')
   \<and> build_document ''W1'' [mk_row ''W1'' '' '' '''' ''chapter'' ''one'' '''' '''' '''' '''']
       = Inl (Exit ''ERROR: Empty node_id in work W1'' 1)"
  by code_simp

text \<open>
  Claim C8 at a concrete input. The \<open>work_id\<close> values \<open>W1\<close> and \<open>W1\<close> with a leading
  blank are equal after trimming, yet the Row Grouper keeps them as two groups of one row
  each; the second group then lacks the parent that lives in the first, and the run fails
  after the document of the first group has been written.
\<close>

theorem work_id_not_trimmed:
  "strip '' W1'' = strip ''W1''
   \<and> map fst (group_rows padded_rows) = [''W1'', '' W1'']
   \<and> map (length \<circ> snd) (group_rows padded_rows) = [1, 1]
   \<and> snd (main every_path_opens REQUIRED_COLUMNS padded_rows)
       = Some (fail (parent_not_found ''N1'' ''N2''))
   \<and> snd (main every_path_opens REQUIRED_COLUMNS padded_rows)
       = Some (Exit ''ERROR: Parent 'N1' not found (node N2)'' 1)
   \<and> map fst (files (fst (main every_path_opens REQUIRED_COLUMNS padded_rows)))
       = [''structures/W1.structure.yaml'']"
  by code_simp

end
